theory Spec2Isabelle
  imports Complex_Main
begin

section \<open>Data model of the compliance mapper\<close>

text \<open>
  The two dataclasses of \<^verbatim>\<open>tools/Compliance-mapper.py\<close>. The field \<^verbatim>\<open>id\<close> of both
  and the field \<^verbatim>\<open>name\<close> of the standard carry a suffix, since \<open>id\<close> is a constant of
  HOL and \<open>name\<close> is also a key of a policy's metadata.
\<close>

record ComplianceControl =
  id_control :: string
  title :: string
  description :: string
  severity :: string
  checks :: "(string \<times> string) list list"

record ComplianceStandard =
  id_standard :: string
  name_standard :: string
  version :: string
  controls :: "ComplianceControl list"

text \<open>
  \<^verbatim>\<open>self.standards\<close> is a dictionary from a standard's id to the standard. The mapper
  only asks whether an id is one of its keys.
\<close>

type_synonym catalog = "string \<rightharpoonup> ComplianceStandard"

text \<open>
  A policy is a dictionary read with \<^verbatim>\<open>policy.get('metadata', {})\<close>,
  \<^verbatim>\<open>metadata.get('compliance', [])\<close> and \<^verbatim>\<open>metadata.get('name', 'unknown')\<close>: each of the
  three keys may be absent, and no other key is read.
\<close>

record Metadata =
  name :: "string option"
  compliance :: "string list option"

record Policy =
  metadata :: "Metadata option"

definition compliance_refs :: "Policy \<Rightarrow> string list" where
  "compliance_refs policy =
     (case metadata policy of
        None \<Rightarrow> []
      | Some m \<Rightarrow> (case compliance m of None \<Rightarrow> [] | Some refs \<Rightarrow> refs))"

definition policy_name_of :: "Policy \<Rightarrow> string" where
  "policy_name_of policy =
     (case metadata policy of
        None \<Rightarrow> ''unknown''
      | Some m \<Rightarrow> (case name m of None \<Rightarrow> ''unknown'' | Some n \<Rightarrow> n))"

section \<open>Strings: \<^verbatim>\<open>str.split\<close> and \<^verbatim>\<open>str.join\<close>\<close>

text \<open>
  \<^verbatim>\<open>s.split(sep)\<close> for a one-character separator: the pieces between the occurrences of
  the separator, empty pieces included, so the empty string gives one empty piece.
  A \<open>char\<close> is a byte; the hyphen is ASCII and no byte of a longer UTF-8 sequence equals
  it, so splitting the bytes and splitting Python's code points cut at the same places.
\<close>

fun str_split :: "char \<Rightarrow> string \<Rightarrow> string list" where
  "str_split sep [] = [[]]"
| "str_split sep (c # cs) =
     (if c = sep then [] # str_split sep cs
      else (case str_split sep cs of
              [] \<Rightarrow> [[c]]
            | t # ts \<Rightarrow> (c # t) # ts))"

fun str_join :: "string \<Rightarrow> string list \<Rightarrow> string" where
  "str_join sep [] = []"
| "str_join sep [t] = t"
| "str_join sep (t # u # ts) = t @ sep @ str_join sep (u # ts)"

section \<open>Dictionaries and sets\<close>

text \<open>
  A Python dictionary keeps its keys in the order of first insertion, and
  \<^verbatim>\<open>mapping.items()\<close> walks them in that order: a dictionary is an association list
  with distinct keys. \<^verbatim>\<open>d[k] = v\<close> replaces the value of a key already there and
  appends a new key otherwise.
\<close>

type_synonym ('k, 'v) dict = "('k \<times> 'v) list"

definition dict_contains :: "'k \<Rightarrow> ('k, 'v) dict \<Rightarrow> bool" where
  "dict_contains k d = (k \<in> set (map fst d))"

definition dict_modify :: "('k, 'v) dict \<Rightarrow> 'k \<Rightarrow> ('v \<Rightarrow> 'v) \<Rightarrow> ('k, 'v) dict" where
  "dict_modify d k f = map (\<lambda>(k', v). if k' = k then (k', f v) else (k', v)) d"

definition dict_store :: "('k, 'v) dict \<Rightarrow> 'k \<Rightarrow> 'v \<Rightarrow> ('k, 'v) dict" where
  "dict_store d k v =
     (if dict_contains k d then dict_modify d k (\<lambda>_. v) else d @ [(k, v)])"

text \<open>
  A Python set is a list without repetition. The order in which \<^verbatim>\<open>list(s)\<close> lists a
  set of strings is not fixed by the language; the model lists the elements in
  the order of first insertion, and no statement below depends on that order.
\<close>

definition set_add :: "'a list \<Rightarrow> 'a \<Rightarrow> 'a list" where
  "set_add s x = (if x \<in> set s then s else s @ [x])"

definition set_update :: "'a list \<Rightarrow> 'a list \<Rightarrow> 'a list" where
  "set_update s xs = foldl set_add s xs"

definition set_of_list :: "'a list \<Rightarrow> 'a list" where
  "set_of_list xs = set_update [] xs"

definition set_difference :: "'a list \<Rightarrow> 'a list \<Rightarrow> 'a list" where
  "set_difference a b = filter (\<lambda>x. x \<notin> set b) a"

definition set_intersection :: "'a list \<Rightarrow> 'a list \<Rightarrow> 'a list" where
  "set_intersection a b = filter (\<lambda>x. x \<in> set b) a"

section \<open>\<^verbatim>\<open>map_policy_to_standards\<close>\<close>

text \<open>
  The reference format is \<^verbatim>\<open>STANDARD-ID[-CONTROL-ID]\<close>. With
  \<^verbatim>\<open>parts = ref.split('-')\<close>, the standard id is \<^verbatim>\<open>'-'.join(parts[:2])\<close> when there are
  at least two parts and the reference itself otherwise; a control id exists when
  there are more than two parts and is then \<^verbatim>\<open>'-'.join(parts[2:])\<close>.
\<close>

definition standard_id_of :: "string \<Rightarrow> string" where
  "standard_id_of ref =
     (let parts = str_split CHR ''-'' ref
      in if length parts \<ge> 2 then str_join ''-'' (take 2 parts) else ref)"

definition control_id_of :: "string \<Rightarrow> string option" where
  "control_id_of ref =
     (let parts = str_split CHR ''-'' ref
      in if length parts > 2 then Some (str_join ''-'' (drop 2 parts)) else None)"

text \<open>One turn of the loop over the compliance references.\<close>

definition map_ref :: "catalog \<Rightarrow> (string, string list) dict \<Rightarrow> string
    \<Rightarrow> (string, string list) dict" where
  "map_ref stds mapping ref =
     (let standard_id = standard_id_of ref
      in if stds standard_id \<noteq> None then
           let mapping1 = (if \<not> dict_contains standard_id mapping
                           then dict_store mapping standard_id []
                           else mapping)
           in (case control_id_of ref of
                 Some control_id \<Rightarrow>
                   dict_modify mapping1 standard_id (\<lambda>cs. cs @ [control_id])
               | None \<Rightarrow> mapping1)
         else mapping)"

definition map_policy_to_standards :: "catalog \<Rightarrow> Policy \<Rightarrow> (string, string list) dict" where
  "map_policy_to_standards stds policy =
     foldl (map_ref stds) [] (compliance_refs policy)"

section \<open>\<^verbatim>\<open>generate_compliance_report\<close>\<close>

record Summary =
  total_policies :: nat
  standards_covered :: "string list"
  controls_covered :: "(string, string list) dict"

record Detail =
  policy_name :: string
  standards :: "(string, string list) dict"

record Report =
  summary :: Summary
  details :: "(string, Detail) dict"

text \<open>The inner loop over \<^verbatim>\<open>mapping.items()\<close>, one item at a time.\<close>

definition update_summary :: "Summary \<Rightarrow> string \<times> string list \<Rightarrow> Summary" where
  "update_summary s item =
     (case item of (standard_id, ctls) \<Rightarrow>
        let covered = set_add (standards_covered s) standard_id;
            cc = (if \<not> dict_contains standard_id (controls_covered s)
                  then dict_store (controls_covered s) standard_id []
                  else controls_covered s)
        in s\<lparr>standards_covered := covered,
             controls_covered := dict_modify cc standard_id (\<lambda>cs. set_update cs ctls)\<rparr>)"

text \<open>The outer loop, one policy at a time.\<close>

definition report_policy :: "catalog \<Rightarrow> Report \<Rightarrow> Policy \<Rightarrow> Report" where
  "report_policy stds report policy =
     (let pname = policy_name_of policy;
          mapping = map_policy_to_standards stds policy
      in \<lparr>summary = foldl update_summary (summary report) mapping,
          details = dict_store (details report) pname
                      \<lparr>policy_name = pname, standards = mapping\<rparr>\<rparr>)"

text \<open>
  The closing conversion of the summary's sets to lists changes nothing in a
  model where a set already is a list without repetition.
\<close>

definition generate_compliance_report :: "catalog \<Rightarrow> Policy list \<Rightarrow> Report" where
  "generate_compliance_report stds policies =
     foldl (report_policy stds)
       \<lparr>summary = \<lparr>total_policies = length policies,
                   standards_covered = [],
                   controls_covered = []\<rparr>,
        details = []\<rparr>
       policies"

section \<open>Python's floats\<close>

text \<open>
  \<^verbatim>\<open>len(a) / len(b) * 100\<close> is float arithmetic: \<^verbatim>\<open>/\<close> on two integers gives the double
  nearest to their exact quotient, and \<^verbatim>\<open>*\<close> gives the double nearest to the exact
  product of the quotient and 100. A double is a rational number with a significand
  of 53 bits, and the nearest one is chosen with ties going to the even significand.
  \<open>float_round\<close> is that rounding; a double is kept as the rational it denotes. The
  range of the exponent is left out: the length of a Python list is below \<open>2^63\<close>, so
  the quotient is 0 or at least \<open>2^-63\<close>, the percentage is at most 100, and nothing
  in the computation is subnormal or overflows.

  \<open>bit_length\<close> is the number of binary digits of a natural number, and
  \<open>float_exponent x\<close> is the exponent \<open>e\<close> of a positive \<open>x\<close>, with \<open>2^e \<le> x < 2^(e+1)\<close>.
\<close>

fun bit_length :: "nat \<Rightarrow> nat" where
  "bit_length n = (if n = 0 then 0 else Suc (bit_length (n div 2)))"

declare bit_length.simps [simp del]

definition float_exponent :: "rat \<Rightarrow> int" where
  "float_exponent x =
     (if 1 \<le> x then int (bit_length (nat \<lfloor>x\<rfloor>)) - 1
      else - int (bit_length (nat (\<lceil>1 / x\<rceil> - 1))))"

definition round_half_even :: "rat \<Rightarrow> int" where
  "round_half_even y =
     (let f = \<lfloor>y\<rfloor>; d = y - of_int f
      in if d < 1 / 2 then f
         else if 1 / 2 < d then f + 1
         else if even f then f else f + 1)"

definition float_round :: "rat \<Rightarrow> rat" where
  "float_round x =
     (if x = 0 then 0
      else if x < 0 then - (let u = 2 powi (float_exponent (- x) - 52)
                            in of_int (round_half_even (- x / u)) * u)
      else (let u = 2 powi (float_exponent x - 52)
            in of_int (round_half_even (x / u)) * u))"

section \<open>\<^verbatim>\<open>check_compliance_gap\<close>\<close>

text \<open>
  The two ways the function fails: the \<^verbatim>\<open>ValueError\<close> it raises itself, with its
  message, and the \<^verbatim>\<open>ZeroDivisionError\<close> of Python's \<^verbatim>\<open>/\<close> on a zero divisor.
\<close>

datatype error = ValueError string | ZeroDivisionError

text \<open>
  \<^verbatim>\<open>coverage_percentage\<close> is a float: the rational number that the double denotes.
\<close>

record GapResult =
  standard :: string
  required_controls :: "string list"
  implemented_controls :: "string list"
  missing_controls :: "string list"
  coverage_percentage :: rat

text \<open>The loop that collects the controls the policies implement.\<close>

definition collect_implemented :: "catalog \<Rightarrow> string \<Rightarrow> string list \<Rightarrow> Policy
    \<Rightarrow> string list" where
  "collect_implemented stds required_standard implemented policy =
     (let mapping = map_policy_to_standards stds policy
      in (case map_of mapping required_standard of
            Some ctls \<Rightarrow> set_update implemented ctls
          | None \<Rightarrow> implemented))"

definition check_compliance_gap :: "catalog \<Rightarrow> string \<Rightarrow> string list \<Rightarrow> Policy list
    \<Rightarrow> error + GapResult" where
  "check_compliance_gap stds required_standard required policies =
     (if stds required_standard = None
      then Inl (ValueError (''Standard '' @ required_standard @ '' not found''))
      else
        let implemented0 = foldl (collect_implemented stds required_standard) [] policies;
            required_set = set_of_list required;
            missing = set_difference required_set implemented0;
            implemented = set_intersection implemented0 required_set
        in if length required = 0 then Inl ZeroDivisionError
           else Inr \<lparr>standard = required_standard,
                     required_controls = required,
                     implemented_controls = implemented,
                     missing_controls = missing,
                     coverage_percentage =
                       float_round
                         (float_round (of_nat (length implemented) / of_nat (length required))
                          * 100)\<rparr>)"

section \<open>Notions used in the statements\<close>

text \<open>
  The control ids that the references to standard \<open>s\<close> carry, one per reference
  that has one, in the order of the references.
\<close>

definition ref_controls :: "string \<Rightarrow> string list \<Rightarrow> string list" where
  "ref_controls s refs =
     concat (map (\<lambda>ref. if standard_id_of ref = s
                          then (case control_id_of ref of Some c \<Rightarrow> [c] | None \<Rightarrow> [])
                          else []) refs)"

text \<open>The controls a dictionary holds under a key; an absent key holds none.\<close>

definition controls_at :: "(string, string list) dict \<Rightarrow> string \<Rightarrow> string set" where
  "controls_at d s = (case map_of d s of None \<Rightarrow> {} | Some cs \<Rightarrow> set cs)"

text \<open>Every value of a dictionary is free of repetition.\<close>

definition values_distinct :: "(string, string list) dict \<Rightarrow> bool" where
  "values_distinct d = (\<forall>s. distinct (case map_of d s of None \<Rightarrow> [] | Some cs \<Rightarrow> cs))"

section \<open>Example inputs\<close>

text \<open>
  A catalog with the one standard \<^verbatim>\<open>SOC-2\<close> and its controls \<^verbatim>\<open>CC6.1\<close> and \<^verbatim>\<open>CC6.2\<close>;
  policy A refers to \<^verbatim>\<open>SOC-2-CC6.1\<close>, policy B to the bare \<^verbatim>\<open>SOC-2\<close>, and policy D
  to \<^verbatim>\<open>SOC-2-CC6.1\<close> twice.
\<close>

definition soc2_standard :: ComplianceStandard where
  "soc2_standard =
     \<lparr>id_standard = ''SOC-2'', name_standard = ''SOC 2'', version = ''2017'',
      controls =
        [\<lparr>id_control = ''CC6.1'', title = ''Logical access'', description = [],
          severity = ''medium'', checks = []\<rparr>,
         \<lparr>id_control = ''CC6.2'', title = ''User registration'', description = [],
          severity = ''medium'', checks = []\<rparr>]\<rparr>"

definition soc2_catalog :: catalog where
  "soc2_catalog = [''SOC-2'' \<mapsto> soc2_standard]"

definition policy_A :: Policy where
  "policy_A = \<lparr>metadata = Some \<lparr>name = Some ''A'', compliance = Some [''SOC-2-CC6.1'']\<rparr>\<rparr>"

definition policy_B :: Policy where
  "policy_B = \<lparr>metadata = Some \<lparr>name = Some ''B'', compliance = Some [''SOC-2'']\<rparr>\<rparr>"

definition policy_D :: Policy where
  "policy_D =
     \<lparr>metadata = Some \<lparr>name = Some ''D'',
                        compliance = Some [''SOC-2-CC6.1'', ''SOC-2-CC6.1'']\<rparr>\<rparr>"

section \<open>Splitting and joining\<close>

lemma str_split_not_Nil: "str_split sep s \<noteq> []"
  by (induction s) (auto split: list.splits)

lemma length_str_split: "length (str_split sep s) = Suc (count_list s sep)"
  by (induction s) (auto split: list.splits simp: str_split_not_Nil)

lemma str_join_Cons: "ts \<noteq> [] \<Longrightarrow> str_join sep (t # ts) = t @ sep @ str_join sep ts"
  by (cases ts) auto

lemma str_join_str_split: "str_join [sep] (str_split sep s) = s"
proof (induction s)
  case Nil
  show ?case by simp
next
  case (Cons c cs)
  obtain t ts where ts: "str_split sep cs = t # ts"
    using str_split_not_Nil [of sep cs] by (cases "str_split sep cs") auto
  show ?case
  proof (cases "c = sep")
    case True
    then show ?thesis using Cons by (simp add: str_join_Cons str_split_not_Nil)
  next
    case False
    then show ?thesis using Cons ts by (cases ts) auto
  qed
qed

lemma str_split_no_sep: "t \<in> set (str_split sep s) \<Longrightarrow> sep \<notin> set t"
  by (induction s arbitrary: t) (auto split: list.splits if_splits)

lemma str_join_take2:
  "2 \<le> length parts \<Longrightarrow> str_join sep (take 2 parts) = parts ! 0 @ sep @ parts ! 1"
  by (cases parts; cases "tl parts") auto

text \<open>
  C5. The parts of a reference are its pieces between hyphens (joining them with
  hyphens gives the reference back). With at least two parts the standard id is
  the first part, a hyphen and the second part; with fewer than two it is the
  reference itself and there is no control id; with more than two parts the control
  id is the remaining parts joined with hyphens, and with at most two there is none.
  Both functions are total: every string is accepted.
\<close>

theorem parse_reference:
  "let parts = str_split CHR ''-'' ref in
     str_join ''-'' parts = ref \<and>
     (length parts \<ge> 2 \<longrightarrow> standard_id_of ref = parts ! 0 @ ''-'' @ parts ! 1) \<and>
     (length parts < 2 \<longrightarrow> standard_id_of ref = ref \<and> control_id_of ref = None) \<and>
     (length parts > 2 \<longrightarrow> control_id_of ref = Some (str_join ''-'' (drop 2 parts))) \<and>
     (length parts \<le> 2 \<longrightarrow> control_id_of ref = None)"
  unfolding Let_def
  using str_join_str_split [of "CHR ''-''" ref]
  by (simp add: standard_id_of_def control_id_of_def str_join_take2 Let_def)

theorem parse_reference_witness:
  "length (str_split CHR ''-'' ''SOC-2-CC6.1-a'') = 4 \<and>
   standard_id_of ''SOC-2-CC6.1-a'' = ''SOC-2'' \<and>
   control_id_of ''SOC-2-CC6.1-a'' = Some ''CC6.1-a'' \<and>
   length (str_split CHR ''-'' ''SOC2'') = 1 \<and>
   standard_id_of ''SOC2'' = ''SOC2'' \<and> control_id_of ''SOC2'' = None \<and>
   length (str_split CHR ''-'' ''SOC-2'') = 2 \<and>
   standard_id_of ''SOC-2'' = ''SOC-2'' \<and> control_id_of ''SOC-2'' = None"
  using parse_reference [of "''SOC-2-CC6.1-a''"] parse_reference [of "''SOC2''"]
    parse_reference [of "''SOC-2''"]
  by (simp add: Let_def)


section \<open>What \<^verbatim>\<open>map_policy_to_standards\<close> returns\<close>

lemma dict_contains_iff: "dict_contains k d \<longleftrightarrow> map_of d k \<noteq> None"
  by (simp add: dict_contains_def map_of_eq_None_iff)

lemma keys_dict_modify: "map fst (dict_modify d k f) = map fst d"
  by (induction d) (auto simp: dict_modify_def)

lemma map_of_dict_modify:
  "map_of (dict_modify d k f) k' = (if k' = k then map_option f (map_of d k) else map_of d k')"
  by (induction d) (auto simp: dict_modify_def)

lemma keys_map_ref:
  "map fst (map_ref stds mapping ref) =
     (if stds (standard_id_of ref) \<noteq> None \<and> standard_id_of ref \<notin> set (map fst mapping)
      then map fst mapping @ [standard_id_of ref] else map fst mapping)"
  by (simp add: map_ref_def Let_def dict_contains_def dict_store_def keys_dict_modify
      split: option.splits)

lemma map_of_map_ref:
  "map_of (map_ref stds mapping ref) s =
     (if stds (standard_id_of ref) \<noteq> None \<and> s = standard_id_of ref
      then Some ((case map_of mapping s of None \<Rightarrow> [] | Some cs \<Rightarrow> cs)
                 @ (case control_id_of ref of Some c \<Rightarrow> [c] | None \<Rightarrow> []))
      else map_of mapping s)"
  by (auto simp: map_ref_def Let_def dict_contains_iff dict_store_def map_of_dict_modify
      map_add_def split: option.splits)

lemma set_keys_map_ref:
  "fst ` set (map_ref stds mapping ref) =
     fst ` set mapping \<union> (if stds (standard_id_of ref) \<noteq> None then {standard_id_of ref} else {})"
proof -
  have "set (map fst (map_ref stds mapping ref)) =
     set (map fst mapping) \<union> (if stds (standard_id_of ref) \<noteq> None then {standard_id_of ref} else {})"
    unfolding keys_map_ref by auto
  then show ?thesis by simp
qed

lemma keys_map_refs:
  "fst ` set (foldl (map_ref stds) mapping refs) =
     fst ` set mapping \<union> {s \<in> standard_id_of ` set refs. stds s \<noteq> None}"
  by (induction refs arbitrary: mapping) (auto simp: set_keys_map_ref)

lemma distinct_keys_map_refs:
  "distinct (map fst mapping) \<Longrightarrow> distinct (map fst (foldl (map_ref stds) mapping refs))"
  by (induction refs arbitrary: mapping) (auto simp: keys_map_ref)

lemma ref_controls_Nil [simp]: "ref_controls s [] = []"
  by (simp add: ref_controls_def)

lemma ref_controls_Cons:
  "ref_controls s (ref # refs) =
     (if standard_id_of ref = s
      then (case control_id_of ref of Some c \<Rightarrow> [c] | None \<Rightarrow> []) else []) @ ref_controls s refs"
  by (simp add: ref_controls_def)

lemma ref_controls_unreferenced:
  "s \<notin> standard_id_of ` set refs \<Longrightarrow> ref_controls s refs = []"
  by (induction refs) (auto simp: ref_controls_Cons)

lemma map_of_map_refs:
  "map_of (foldl (map_ref stds) mapping refs) s =
     (if stds s \<noteq> None \<and> s \<in> standard_id_of ` set refs
      then Some ((case map_of mapping s of None \<Rightarrow> [] | Some cs \<Rightarrow> cs) @ ref_controls s refs)
      else map_of mapping s)"
proof (induction refs arbitrary: mapping)
  case Nil
  show ?case by simp
next
  case (Cons ref refs)
  show ?case
    by (simp add: Cons.IH map_of_map_ref ref_controls_Cons)
      (auto split: option.splits simp: ref_controls_unreferenced)
qed

lemma map_of_map_policy:
  "map_of (map_policy_to_standards stds policy) s =
     (if stds s \<noteq> None \<and> s \<in> standard_id_of ` set (compliance_refs policy)
      then Some (ref_controls s (compliance_refs policy)) else None)"
  by (simp add: map_policy_to_standards_def map_of_map_refs)

lemma keys_map_policy:
  "fst ` set (map_policy_to_standards stds policy) =
     {s \<in> standard_id_of ` set (compliance_refs policy). stds s \<noteq> None}"
  by (simp add: map_policy_to_standards_def keys_map_refs)

lemma distinct_keys_map_policy: "distinct (map fst (map_policy_to_standards stds policy))"
  by (simp add: map_policy_to_standards_def distinct_keys_map_refs)

lemma count_ref_controls:
  "count_list (ref_controls s refs) c =
     length (filter (\<lambda>ref. standard_id_of ref = s \<and> control_id_of ref = Some c) refs)"
proof (induction refs)
  case Nil
  show ?case by simp
next
  case (Cons r refs)
  show ?case
  proof (cases "control_id_of r")
    case None
    have "ref_controls s (r # refs) = ref_controls s refs"
      using None by (simp add: ref_controls_Cons)
    then show ?thesis using None Cons.IH by simp
  next
    case (Some a)
    have "ref_controls s (r # refs) =
            (if standard_id_of r = s then [a] else []) @ ref_controls s refs"
      using Some by (simp add: ref_controls_Cons)
    then show ?thesis using Some Cons.IH by simp
  qed
qed

lemmas mapper_defs =
  map_policy_to_standards_def compliance_refs_def map_ref_def standard_id_of_def
  control_id_of_def dict_contains_def dict_store_def dict_modify_def Let_def

lemmas example_defs = soc2_catalog_def policy_A_def policy_B_def policy_D_def

lemma ref_controls_empty_iff:
  "ref_controls s refs = [] \<longleftrightarrow>
     (\<forall>ref \<in> set refs. standard_id_of ref = s \<longrightarrow> control_id_of ref = None)"
  by (induction refs) (auto simp: ref_controls_Cons split: option.splits)

text \<open>
  C1, as stated, fails: policy B refers to the known standard \<^verbatim>\<open>SOC-2\<close> with no control
  id, and the mapping returned for it has the key \<^verbatim>\<open>SOC-2\<close>, with an empty list, since
  the key is stored before the number of parts is looked at.
\<close>

theorem bare_reference_counterexample:
  "compliance_refs policy_B = [''SOC-2''] \<and>
   standard_id_of ''SOC-2'' = ''SOC-2'' \<and> control_id_of ''SOC-2'' = None \<and>
   soc2_catalog ''SOC-2'' \<noteq> None \<and>
   map_policy_to_standards soc2_catalog policy_B = [(''SOC-2'', [])] \<and>
   dict_contains ''SOC-2'' (map_policy_to_standards soc2_catalog policy_B)"
  by (simp add: mapper_defs example_defs)

text \<open>
  C1, amended. A reference whose standard id is a key of the catalog makes that id a
  key of the returned mapping, whether or not the reference has a control id. The
  value under it lists the control ids of the references to that standard that
  carry one, and is the empty list when none of them does.
\<close>

theorem known_standard_entry:
  assumes "ref \<in> set (compliance_refs policy)"
    and "stds (standard_id_of ref) \<noteq> None"
  shows "dict_contains (standard_id_of ref) (map_policy_to_standards stds policy) \<and>
         map_of (map_policy_to_standards stds policy) (standard_id_of ref) =
           Some (ref_controls (standard_id_of ref) (compliance_refs policy)) \<and>
         ((\<forall>r \<in> set (compliance_refs policy).
              standard_id_of r = standard_id_of ref \<longrightarrow> control_id_of r = None)
          \<longrightarrow> map_of (map_policy_to_standards stds policy) (standard_id_of ref) = Some [])"
proof -
  have m: "map_of (map_policy_to_standards stds policy) (standard_id_of ref) =
           Some (ref_controls (standard_id_of ref) (compliance_refs policy))"
    using assms by (simp add: map_of_map_policy)
  then have "dict_contains (standard_id_of ref) (map_policy_to_standards stds policy)"
    by (simp add: dict_contains_iff)
  moreover have "ref_controls (standard_id_of ref) (compliance_refs policy) = []"
    if "\<forall>r \<in> set (compliance_refs policy).
          standard_id_of r = standard_id_of ref \<longrightarrow> control_id_of r = None"
    using that by (simp add: ref_controls_empty_iff)
  ultimately show ?thesis using m by simp
qed

theorem known_standard_entry_witness:
  "''SOC-2'' \<in> set (compliance_refs policy_B) \<and>
   soc2_catalog (standard_id_of ''SOC-2'') \<noteq> None \<and>
   compliance_refs policy_B = [''SOC-2''] \<and> control_id_of ''SOC-2'' = None \<and>
   dict_contains (standard_id_of ''SOC-2'') (map_policy_to_standards soc2_catalog policy_B) \<and>
   map_of (map_policy_to_standards soc2_catalog policy_B) (standard_id_of ''SOC-2'') = Some []"
proof -
  have r: "''SOC-2'' \<in> set (compliance_refs policy_B)"
    by (simp add: compliance_refs_def policy_B_def)
  have k: "soc2_catalog (standard_id_of ''SOC-2'') \<noteq> None"
    by (simp add: soc2_catalog_def standard_id_of_def)
  have n: "\<forall>r \<in> set (compliance_refs policy_B).
      standard_id_of r = standard_id_of ''SOC-2'' \<longrightarrow> control_id_of r = None"
    by (simp add: compliance_refs_def policy_B_def control_id_of_def)
  have c: "compliance_refs policy_B = [''SOC-2''] \<and> control_id_of ''SOC-2'' = None"
    by (simp add: compliance_refs_def policy_B_def control_id_of_def)
  show ?thesis
    using known_standard_entry [of "''SOC-2''" policy_B soc2_catalog, OF r k] r k n c by blast
qed

text \<open>
  C2, as stated, fails: policy D names \<^verbatim>\<open>SOC-2-CC6.1\<close> twice, and the value returned
  for \<^verbatim>\<open>SOC-2\<close> is a list in which \<^verbatim>\<open>CC6.1\<close> occurs twice.
\<close>

theorem duplicate_control_counterexample:
  "compliance_refs policy_D = [''SOC-2-CC6.1'', ''SOC-2-CC6.1''] \<and>
   soc2_catalog (standard_id_of ''SOC-2-CC6.1'') \<noteq> None \<and>
   control_id_of ''SOC-2-CC6.1'' = Some ''CC6.1'' \<and>
   map_of (map_policy_to_standards soc2_catalog policy_D) ''SOC-2'' = Some [''CC6.1'', ''CC6.1''] \<and>
   count_list [''CC6.1'', ''CC6.1''] ''CC6.1'' = 2"
  by (simp add: mapper_defs example_defs)

text \<open>
  C2, amended. The value returned for a standard is a list that keeps repetitions: a
  control id occurs in it once for each reference of the policy that names this
  standard and this control id.
\<close>

theorem control_occurrences:
  "map_of (map_policy_to_standards stds policy) s = Some cs \<Longrightarrow>
     count_list cs c =
       length (filter (\<lambda>ref. standard_id_of ref = s \<and> control_id_of ref = Some c)
                 (compliance_refs policy))"
  by (auto simp: map_of_map_policy count_ref_controls split: if_splits)

theorem control_occurrences_witness:
  "map_of (map_policy_to_standards soc2_catalog policy_D) ''SOC-2'' = Some [''CC6.1'', ''CC6.1''] \<and>
   count_list [''CC6.1'', ''CC6.1''] ''CC6.1'' = (2::nat) \<and>
   length (filter (\<lambda>ref. standard_id_of ref = ''SOC-2'' \<and> control_id_of ref = Some ''CC6.1'')
             (compliance_refs policy_D)) = 2"
proof -
  have m: "map_of (map_policy_to_standards soc2_catalog policy_D) ''SOC-2'' = Some [''CC6.1'', ''CC6.1'']"
    by (simp add: mapper_defs example_defs)
  show ?thesis using control_occurrences [OF m, of "''CC6.1''"] m by simp
qed



section \<open>Sets as lists without repetition\<close>

lemma set_set_add: "set (set_add s x) = insert x (set s)"
  by (auto simp: set_add_def)

lemma distinct_set_add: "distinct s \<Longrightarrow> distinct (set_add s x)"
  by (simp add: set_add_def)

lemma set_set_update: "set (set_update s xs) = set s \<union> set xs"
  unfolding set_update_def by (induction xs arbitrary: s) (auto simp: set_set_add)

lemma distinct_set_update: "distinct s \<Longrightarrow> distinct (set_update s xs)"
  unfolding set_update_def by (induction xs arbitrary: s) (auto simp: distinct_set_add)

lemma set_set_of_list: "set (set_of_list xs) = set xs"
  by (simp add: set_of_list_def set_set_update)

lemma distinct_set_of_list: "distinct (set_of_list xs)"
  by (simp add: set_of_list_def distinct_set_update)

lemma length_set_of_list: "length (set_of_list xs) \<le> length xs"
proof -
  have "length (set_of_list xs) = card (set xs)"
    using distinct_card [OF distinct_set_of_list, of xs] by (simp add: set_set_of_list)
  then show ?thesis by (simp add: card_length)
qed

section \<open>Rounding to a double\<close>

lemma bit_length_0: "bit_length 0 = 0"
  by (simp add: bit_length.simps)

lemma bit_length_Suc_0: "bit_length (Suc 0) = Suc 0"
  by (simp add: bit_length.simps [of "Suc 0"] bit_length_0)

lemma bit_length_bounds:
  "0 < n \<Longrightarrow> 2 ^ (bit_length n - 1) \<le> n \<and> n < 2 ^ bit_length n"
proof (induction n rule: bit_length.induct)
  case (1 n)
  show ?case
  proof (cases "n div 2 = 0")
    case True
    with "1.prems" have "n = 1" by (simp add: div_eq_0_iff) 
    then show ?thesis by (simp add: bit_length_Suc_0)
  next
    case False
    then have "0 < n div 2" by simp
    with "1.IH" "1.prems" have ih: "2 ^ (bit_length (n div 2) - 1) \<le> n div 2"
      "n div 2 < 2 ^ bit_length (n div 2)" by simp_all
    have pos: "0 < bit_length (n div 2)"
      using False by (simp add: bit_length.simps [of "n div 2"])
    have b: "bit_length n = Suc (bit_length (n div 2))"
      using "1.prems" by (simp add: bit_length.simps [of n])
    have "2 * 2 ^ (bit_length (n div 2) - 1) \<le> n"
      using ih(1) by linarith
    moreover have "2 * 2 ^ (bit_length (n div 2) - 1) = (2::nat) ^ bit_length (n div 2)"
      using pos by (cases "bit_length (n div 2)") simp_all
    moreover have "n < 2 * 2 ^ bit_length (n div 2)"
      using ih(2) by linarith
    ultimately show ?thesis by (simp add: b)
  qed
qed

lemma pow2_le_of_nat: "2 ^ k \<le> (n::nat) \<Longrightarrow> (2::rat) ^ k \<le> of_nat n"
proof -
  assume "2 ^ k \<le> n"
  then have "rat_of_nat (2 ^ k) \<le> rat_of_nat n" by (simp only: of_nat_le_iff)
  moreover have "rat_of_nat (2 ^ k) = 2 ^ k" by simp
  ultimately show ?thesis by (simp only:)
qed

lemma of_nat_less_pow2: "(n::nat) < 2 ^ k \<Longrightarrow> rat_of_nat n + 1 \<le> 2 ^ k"
proof -
  assume "n < 2 ^ k"
  then have "n + 1 \<le> 2 ^ k" by simp
  then have "rat_of_nat (n + 1) \<le> rat_of_nat (2 ^ k)" by (simp only: of_nat_le_iff)
  moreover have "rat_of_nat (2 ^ k) = 2 ^ k" by simp
  moreover have "rat_of_nat (n + 1) = rat_of_nat n + 1" by simp
  ultimately show ?thesis by (simp only:)
qed

lemma float_exponent_bounds:
  assumes "0 < x"
  shows "2 powi float_exponent x \<le> x" and "x < 2 powi (float_exponent x + 1)"
proof -
  have "2 powi float_exponent x \<le> x \<and> x < 2 powi (float_exponent x + 1)"
  proof (cases "1 \<le> x")
    case True
    define N where "N = nat \<lfloor>x\<rfloor>"
    have N: "0 < N" "rat_of_nat N \<le> x" "x < rat_of_nat N + 1"
      using True unfolding N_def by (simp_all add: of_nat_nat) linarith+
    have e: "float_exponent x = int (bit_length N) - 1"
      using True by (simp add: float_exponent_def N_def)
    have bl: "2 ^ (bit_length N - 1) \<le> N" "N < 2 ^ bit_length N"
      using bit_length_bounds [OF N(1)] by simp_all
    have pos: "0 < bit_length N"
      using N(1) by (simp add: bit_length.simps [of N])
    have p1: "(2::rat) powi (int (bit_length N) - 1) = 2 ^ (bit_length N - 1)"
      using pos by (simp add: power_int_def nat_diff_distrib')
    have p2: "(2::rat) powi (int (bit_length N) - 1 + 1) = 2 ^ bit_length N"
      by simp
    have lo: "(2::rat) ^ (bit_length N - 1) \<le> x"
      using pow2_le_of_nat [OF bl(1)] N(2) by linarith
    have up: "x < (2::rat) ^ bit_length N"
      using of_nat_less_pow2 [OF bl(2)] N(3) by linarith
    show ?thesis unfolding e p1 p2 using lo up by blast
  next
    case False
    define M where "M = nat (\<lceil>1 / x\<rceil> - 1)"
    have inv: "1 < 1 / x" using False assms by simp
    then have c: "2 \<le> \<lceil>1 / x\<rceil>" by linarith
    have M: "0 < M" "rat_of_nat M < 1 / x" "1 / x \<le> rat_of_nat M + 1"
      using c unfolding M_def by (simp_all add: of_nat_nat) linarith+
    have e: "float_exponent x = - int (bit_length M)"
      using False by (simp add: float_exponent_def M_def)
    have bl: "2 ^ (bit_length M - 1) \<le> M" "M < 2 ^ bit_length M"
      using bit_length_bounds [OF M(1)] by simp_all
    have pos: "0 < bit_length M"
      using M(1) by (simp add: bit_length.simps [of M])
    have up: "1 / x \<le> 2 ^ bit_length M"
      using of_nat_less_pow2 [OF bl(2)] M(3) by linarith
    have lo: "(2::rat) ^ (bit_length M - 1) < 1 / x"
      using pow2_le_of_nat [OF bl(1)] M(2) by linarith
    have "(2::rat) powi (- int (bit_length M)) = 1 / 2 ^ bit_length M"
      by (simp add: power_int_minus_divide)
    moreover have "1 / 2 ^ bit_length M \<le> x"
      using up assms by (simp add: field_simps)
    moreover have "(2::rat) powi (- int (bit_length M) + 1) = 1 / 2 ^ (bit_length M - 1)"
    proof -
      have "- int (bit_length M) + 1 = - int (bit_length M - 1)" using pos by simp
      then show ?thesis by (simp only: power_int_minus_divide power_int_of_nat)
    qed
    moreover have "x < 1 / 2 ^ (bit_length M - 1)"
      using lo assms by (simp add: field_simps)
    ultimately show ?thesis using e by simp
  qed
  then show "2 powi float_exponent x \<le> x" and "x < 2 powi (float_exponent x + 1)"
    by simp_all
qed

lemma float_exponent_less:
  assumes "0 < x" and "x < 2 powi b"
  shows "float_exponent x < b"
proof (rule ccontr)
  assume "\<not> float_exponent x < b"
  then have "b \<le> float_exponent x" by simp
  then have "(2::rat) powi b \<le> 2 powi float_exponent x"
    by (rule power_int_increasing) simp
  with float_exponent_bounds(1) [OF assms(1)] assms(2) show False by simp
qed

lemma round_half_even_le:
  assumes "y \<le> of_int j"
  shows "round_half_even y \<le> j"
proof -
  have f: "\<lfloor>y\<rfloor> \<le> j" using assms by (simp add: floor_le_iff)
  show ?thesis
  proof (cases "y = of_int \<lfloor>y\<rfloor>")
    case True
    then have "y - of_int \<lfloor>y\<rfloor> = 0" by simp
    then show ?thesis using f by (simp add: round_half_even_def Let_def)
  next
    case False
    then have "of_int \<lfloor>y\<rfloor> < y" using of_int_floor_le [of y] by linarith
    then have "of_int \<lfloor>y\<rfloor> < (of_int j :: rat)" using assms by linarith
    then have "\<lfloor>y\<rfloor> < j" by (simp only: of_int_less_iff)
    then show ?thesis by (simp add: round_half_even_def Let_def)
  qed
qed

lemma round_half_even_ge:
  assumes "of_int j \<le> y"
  shows "j \<le> round_half_even y"
proof -
  have "j \<le> \<lfloor>y\<rfloor>" using assms by (simp add: le_floor_iff)
  then show ?thesis by (simp add: round_half_even_def Let_def)
qed

lemma round_half_even_upper: "of_int (round_half_even y) \<le> y + 1 / 2"
proof -
  have f: "of_int \<lfloor>y\<rfloor> \<le> y" by simp
  consider "y - of_int \<lfloor>y\<rfloor> < 1 / 2" | "1 / 2 < y - of_int \<lfloor>y\<rfloor>"
    | "y - of_int \<lfloor>y\<rfloor> = 1 / 2" by linarith
  then show ?thesis
  proof cases
    case 1
    then have "round_half_even y = \<lfloor>y\<rfloor>"
      unfolding round_half_even_def Let_def by (simp only: if_True)
    then have "rat_of_int (round_half_even y) = rat_of_int \<lfloor>y\<rfloor>" by simp
    then show ?thesis using f by linarith
  next
    case 2
    then have "\<not> y - of_int \<lfloor>y\<rfloor> < 1 / 2" by simp
    then have "round_half_even y = \<lfloor>y\<rfloor> + 1"
      unfolding round_half_even_def Let_def using 2 by (simp only: if_True if_False)
    then have "rat_of_int (round_half_even y) = rat_of_int \<lfloor>y\<rfloor> + 1" by simp
    then show ?thesis using 2 by linarith
  next
    case 3
    then have "round_half_even y \<le> \<lfloor>y\<rfloor> + 1"
      unfolding round_half_even_def Let_def by simp
    then have "rat_of_int (round_half_even y) \<le> rat_of_int (\<lfloor>y\<rfloor> + 1)"
      by (simp only: of_int_le_iff)
    moreover have "rat_of_int (\<lfloor>y\<rfloor> + 1) = rat_of_int \<lfloor>y\<rfloor> + 1" by simp
    ultimately show ?thesis using 3 by linarith
  qed
qed

lemma float_exponent_ge:
  assumes "0 < x" and "2 powi b \<le> x"
  shows "b \<le> float_exponent x"
proof (rule ccontr)
  assume "\<not> b \<le> float_exponent x"
  then have "float_exponent x + 1 \<le> b" by simp
  then have "(2::rat) powi (float_exponent x + 1) \<le> 2 powi b"
    by (rule power_int_increasing) simp
  with float_exponent_bounds(2) [OF assms(1)] assms(2) show False by simp
qed

lemma float_round_pos:
  "0 < x \<Longrightarrow> float_round x =
     of_int (round_half_even (x / 2 powi (float_exponent x - 52))) * 2 powi (float_exponent x - 52)"
  by (simp add: float_round_def Let_def)

lemma float_round_nonneg:
  assumes "0 \<le> x"
  shows "0 \<le> float_round x"
proof (cases "x = 0")
  case True
  then show ?thesis by (simp add: float_round_def)
next
  case False
  with assms have pos: "0 < x" by simp
  define u :: rat where "u = 2 powi (float_exponent x - 52)"
  have u: "0 < u" by (simp add: u_def)
  have "rat_of_int 0 \<le> x / u" using pos u by simp
  then have "0 \<le> round_half_even (x / u)" by (rule round_half_even_ge)
  then have "0 \<le> rat_of_int (round_half_even (x / u)) * u" using u by simp
  then show ?thesis unfolding float_round_pos [OF pos] u_def .
qed

lemma float_round_le:
  assumes "0 < x" and "x \<le> c"
    and "c / 2 powi (float_exponent x - 52) = of_int j"
  shows "float_round x \<le> c"
proof -
  define u :: rat where "u = 2 powi (float_exponent x - 52)"
  have u: "0 < u" by (simp add: u_def)
  have c: "c = of_int j * u"
    using assms(3) u unfolding u_def by (simp add: field_simps)
  have "x / u \<le> c / u" using assms(2) u by (simp add: divide_right_mono)
  then have "x / u \<le> of_int j" using assms(3) unfolding u_def by simp
  then have "round_half_even (x / u) \<le> j" by (rule round_half_even_le)
  then have "rat_of_int (round_half_even (x / u)) \<le> rat_of_int j" by (simp only: of_int_le_iff)
  then have "rat_of_int (round_half_even (x / u)) * u \<le> rat_of_int j * u"
    using u by (simp add: mult_right_mono)
  then show ?thesis unfolding float_round_pos [OF assms(1)] c u_def .
qed

lemma float_round_le_int:
  assumes "0 \<le> x" and "x \<le> of_int k" and "k < 2 ^ 53"
  shows "float_round x \<le> of_int k"
proof (cases "x = 0")
  case True
  then show ?thesis using assms(2) by (simp add: float_round_def)
next
  case False
  with assms(1) have pos: "0 < x" by simp
  have "x < rat_of_int (2 ^ 53)"
    using assms(2,3) by (metis le_less_trans of_int_less_iff)
  then have "x < 2 powi 53" by simp
  then have e: "float_exponent x < 53" by (rule float_exponent_less [OF pos])
  define d where "d = nat (52 - float_exponent x)"
  have d: "52 - float_exponent x = int d" using e by (simp add: d_def)
  have "rat_of_int k / 2 powi (float_exponent x - 52) = of_int k * 2 powi (52 - float_exponent x)"
    by (simp add: power_int_diff field_simps)
  also have "\<dots> = of_int k * 2 ^ d" unfolding d by simp
  also have "\<dots> = of_int (k * 2 ^ d)" by simp
  finally show ?thesis by (rule float_round_le [OF pos assms(2)])
qed

lemma float_round_upper_half:
  assumes "0 < x"
  shows "float_round x \<le> x + 2 powi (float_exponent x - 52) / 2"
proof -
  define u :: rat where "u = 2 powi (float_exponent x - 52)"
  have u: "0 < u" by (simp add: u_def)
  have "rat_of_int (round_half_even (x / u)) \<le> x / u + 1 / 2"
    by (rule round_half_even_upper)
  then have "rat_of_int (round_half_even (x / u)) * u \<le> (x / u + 1 / 2) * u"
    using u by (simp only: mult_right_mono less_imp_le)
  also have "(x / u + 1 / 2) * u = x + u / 2"
    using u by (simp add: field_simps)
  finally show ?thesis unfolding float_round_pos [OF assms] u_def .
qed

text \<open>The rounded quotient of two lengths, and the rounded percentage.\<close>

lemma float_round_quotient_bounds:
  assumes "n \<le> m" and "0 < m"
  shows "0 \<le> float_round (of_nat n / of_nat m)" and "float_round (of_nat n / of_nat m) \<le> 1"
proof -
  have q: "(0::rat) \<le> of_nat n / of_nat m" "rat_of_nat n / of_nat m \<le> of_int 1"
    using assms by (simp_all add: divide_le_eq)
  show "0 \<le> float_round (of_nat n / of_nat m)" by (rule float_round_nonneg [OF q(1)])
  have "float_round (rat_of_nat n / of_nat m) \<le> of_int 1"
    by (rule float_round_le_int [OF q]) simp
  then show "float_round (of_nat n / of_nat m) \<le> 1" by simp
qed

lemma float_percentage_bounds:
  assumes "0 \<le> q" and "q \<le> 1"
  shows "0 \<le> float_round (q * 100)" and "float_round (q * 100) \<le> 100"
proof -
  have y: "0 \<le> q * 100" "q * 100 \<le> of_int 100" using assms by simp_all
  show "0 \<le> float_round (q * 100)" by (rule float_round_nonneg [OF y(1)])
  have "float_round (q * 100) \<le> of_int 100"
    by (rule float_round_le_int [OF y]) simp
  then show "float_round (q * 100) \<le> 100" by simp
qed

lemma float_round_quotient_below_1:
  assumes "n < m" and "m \<le> 2 ^ 53"
  shows "float_round (of_nat n / of_nat m) \<le> 1 - 1 / 2 ^ 53"
proof (cases "n = 0")
  case True
  then show ?thesis by (simp add: float_round_def)
next
  case False
  define x :: rat where "x = of_nat n / of_nat m"
  have m: "(0::rat) < of_nat m" using assms(1) by simp
  have pos: "0 < x" using False m by (simp add: x_def)
  have "rat_of_nat n + 1 \<le> of_nat m"
  proof -
    have "n + 1 \<le> m" using assms(1) by simp
    then have "rat_of_nat (n + 1) \<le> rat_of_nat m" by (simp only: of_nat_le_iff)
    then show ?thesis by simp
  qed
  then have "x \<le> 1 - 1 / of_nat m"
    using m by (simp add: x_def field_simps)
  moreover have "1 / rat_of_nat m \<ge> 1 / 2 ^ 53"
  proof -
    have "rat_of_nat m \<le> rat_of_nat (2 ^ 53)" using assms(2) by (simp only: of_nat_le_iff)
    then have "rat_of_nat m \<le> 2 ^ 53" by simp
    then show ?thesis using m by (simp add: frac_le)
  qed
  ultimately have le: "x \<le> 1 - 1 / 2 ^ 53" by linarith
  have "x < 2 powi 0" using le by simp
  then have "float_exponent x < 0" by (rule float_exponent_less [OF pos])
  define d where "d = nat (- 1 - float_exponent x)"
  have d: "float_exponent x = - 1 - int d" using \<open>float_exponent x < 0\<close> by (simp add: d_def)
  have ex: "float_exponent x - 52 = - (53 + int d)" using d by simp
  have "(1 - 1 / 2 ^ 53) / 2 powi (float_exponent x - 52) =
        (1 - 1 / 2 ^ 53) * (2::rat) powi (53 + int d)"
    unfolding ex power_int_minus divide_inverse inverse_inverse_eq by (rule refl)
  also have "(2::rat) powi (53 + int d) = 2 ^ 53 * 2 ^ d"
  proof -
    have "53 + int d = int (53 + d)" by simp
    then have "(2::rat) powi (53 + int d) = 2 ^ (53 + d)"
      by (simp only: power_int_of_nat)
    then show ?thesis by (simp only: power_add)
  qed
  also have "(1 - 1 / 2 ^ 53) * (2 ^ 53 * 2 ^ d) = rat_of_int ((2 ^ 53 - 1) * 2 ^ d)"
    by (simp add: field_simps)
  finally have "float_round x \<le> 1 - 1 / 2 ^ 53"
    by (rule float_round_le [OF pos le])
  then show ?thesis by (simp only: x_def)
qed

lemma float_percentage_below_100:
  assumes "0 \<le> q" and "q \<le> 1 - 1 / 2 ^ 53"
  shows "float_round (q * 100) < 100"
proof -
  define y where "y = q * 100"
  have y: "0 \<le> y" "y \<le> 100 - 100 / 2 ^ 53"
    using assms by (simp_all add: y_def)
  show ?thesis
  proof (cases "y < 64")
    case True
    have "float_round y \<le> of_int 64"
      by (rule float_round_le_int) (use True y in simp_all)
    then show ?thesis by (simp add: y_def)
  next
    case False
    then have pos: "0 < y" and "2 powi 6 \<le> y" by simp_all
    then have "6 \<le> float_exponent y" by (simp only: float_exponent_ge)
    moreover have "y < 2 powi 7" using y(2) by simp
    then have "float_exponent y < 7" by (rule float_exponent_less [OF pos])
    ultimately have e: "float_exponent y = 6" by simp
    have "float_round y \<le> y + 2 powi (- 46) / 2"
      using float_round_upper_half [OF pos] unfolding e by simp
    also have "\<dots> \<le> 100 - 100 / 2 ^ 53 + 2 powi (- 46) / 2"
      using y(2) by simp
    also have "\<dots> < 100"
      by (simp add: power_int_minus field_simps)
    finally show ?thesis by (simp only: y_def)
  qed
qed

text \<open>
  Two percentages that the rounding moves off the exact value: 1 of 3 gives
  \<^verbatim>\<open>33.33333333333333\<close>, the double \<open>2345624805922133 / 2^46\<close>, and 11 of 20 gives
  \<^verbatim>\<open>55.00000000000001\<close>, the double \<open>55 + 1 / 2^47\<close>.
\<close>

lemma float_round_examples:
  "float_round (float_round (1 / 3) * 100) = 2345624805922133 / 2 ^ 46"
  "float_round (float_round (11 / 20) * 100) = 55 + 1 / 2 ^ 47"
  by code_simp+

lemma float_round_half: "float_round (1 / 2) = 1 / 2"
  by code_simp

lemma float_round_50: "float_round 50 = 50"
  by code_simp

section \<open>What \<^verbatim>\<open>check_compliance_gap\<close> returns\<close>

lemma set_collect_implemented:
  "set (collect_implemented stds s impl policy) =
     set impl \<union> controls_at (map_policy_to_standards stds policy) s"
  by (simp add: collect_implemented_def controls_at_def set_set_update split: option.splits)

lemma distinct_collect_implemented:
  "distinct impl \<Longrightarrow> distinct (collect_implemented stds s impl policy)"
  by (simp add: collect_implemented_def distinct_set_update split: option.splits)

lemma set_collect_all:
  "set (foldl (collect_implemented stds s) impl policies) =
     set impl \<union> (\<Union>p \<in> set policies. controls_at (map_policy_to_standards stds p) s)"
  by (induction policies arbitrary: impl) (auto simp: set_collect_implemented)

lemma distinct_collect_all:
  "distinct impl \<Longrightarrow> distinct (foldl (collect_implemented stds s) impl policies)"
  by (induction policies arbitrary: impl) (auto simp: distinct_collect_implemented)

text \<open>What a successful call returns, field by field.\<close>

lemma check_compliance_gap_Inr:
  assumes "check_compliance_gap stds s required policies = Inr r"
  shows "stds s \<noteq> None" and "required \<noteq> []"
    and "standard r = s" and "required_controls r = required"
    and "implemented_controls r =
           set_intersection (foldl (collect_implemented stds s) [] policies) (set_of_list required)"
    and "missing_controls r =
           set_difference (set_of_list required) (foldl (collect_implemented stds s) [] policies)"
    and "coverage_percentage r =
           float_round
             (float_round (of_nat (length (implemented_controls r)) / of_nat (length required))
              * 100)"
  using assms by (auto simp: check_compliance_gap_def Let_def split: if_splits)

lemma check_compliance_gap_returns:
  "stds s \<noteq> None \<Longrightarrow> required \<noteq> [] \<Longrightarrow> \<exists>r. check_compliance_gap stds s required policies = Inr r"
  by (simp add: check_compliance_gap_def Let_def)

lemma implemented_le_required:
  assumes "check_compliance_gap stds s required policies = Inr r"
  shows "length (implemented_controls r) \<le> length required"
proof -
  let ?impl = "foldl (collect_implemented stds s) [] policies"
  have i: "implemented_controls r = set_intersection ?impl (set_of_list required)"
    using check_compliance_gap_Inr(5) [OF assms] .
  have "distinct ?impl" by (simp add: distinct_collect_all)
  then have d: "distinct (implemented_controls r)"
    by (simp add: i set_intersection_def)
  have "set (implemented_controls r) \<subseteq> set required"
    by (auto simp: i set_intersection_def set_set_of_list)
  then have "card (set (implemented_controls r)) \<le> card (set required)"
    by (simp add: card_mono)
  then show ?thesis
    using distinct_card [OF d] card_length [of required] by simp
qed

lemmas gap_defs =
  check_compliance_gap_def collect_implemented_def set_update_def set_add_def
  set_of_list_def set_difference_def set_intersection_def

text \<open>
  C3. For a standard of the catalog and an empty list of required controls, the call
  fails with the division by zero of the coverage percentage, whatever the policies
  are: nothing in the function treats the empty list apart.
\<close>

theorem empty_required_divides_by_zero:
  "stds s \<noteq> None \<Longrightarrow> check_compliance_gap stds s [] policies = Inl ZeroDivisionError"
  by (simp add: check_compliance_gap_def Let_def)

theorem empty_required_divides_by_zero_witness:
  "soc2_catalog ''SOC-2'' \<noteq> None \<and>
   check_compliance_gap soc2_catalog ''SOC-2'' [] [policy_A, policy_B] = Inl ZeroDivisionError"
proof -
  have k: "soc2_catalog ''SOC-2'' \<noteq> None" by (simp add: soc2_catalog_def)
  show ?thesis
    using empty_required_divides_by_zero [of soc2_catalog "''SOC-2''" "[policy_A, policy_B]", OF k] k
    by simp
qed

text \<open>
  C4. The call fails with the \<^verbatim>\<open>ValueError\<close> whose message names the standard exactly when
  the standard is not a key of the catalog, and it fails with a \<^verbatim>\<open>ValueError\<close> at all
  only then. For a standard of the catalog and a non-empty list of required controls
  it returns a result.
\<close>

theorem unknown_standard_error:
  "(check_compliance_gap stds s required policies =
      Inl (ValueError (''Standard '' @ s @ '' not found'')) \<longleftrightarrow> stds s = None) \<and>
   ((\<exists>msg. check_compliance_gap stds s required policies = Inl (ValueError msg))
      \<longleftrightarrow> stds s = None) \<and>
   (stds s \<noteq> None \<and> required \<noteq> [] \<longrightarrow>
      (\<exists>r. check_compliance_gap stds s required policies = Inr r))"
  by (auto simp: check_compliance_gap_def Let_def)

theorem unknown_standard_error_witness:
  "soc2_catalog ''ISO-9999'' = None \<and>
   check_compliance_gap soc2_catalog ''ISO-9999'' [''CC6.1''] [policy_A] =
     Inl (ValueError ''Standard ISO-9999 not found'') \<and>
   soc2_catalog ''SOC-2'' \<noteq> None \<and>
   check_compliance_gap soc2_catalog ''SOC-2'' [''CC6.1''] [policy_A] \<noteq>
     Inl (ValueError ''Standard SOC-2 not found'') \<and>
   (\<exists>r. check_compliance_gap soc2_catalog ''SOC-2'' [''CC6.1''] [policy_A] = Inr r)"
proof -
  have u: "soc2_catalog ''ISO-9999'' = None" by (simp add: soc2_catalog_def)
  have k: "soc2_catalog ''SOC-2'' \<noteq> None" by (simp add: soc2_catalog_def)
  have n: "[''CC6.1''] \<noteq> []" by simp
  show ?thesis
    using unknown_standard_error [of soc2_catalog "''ISO-9999''" "[''CC6.1'']" "[policy_A]"]
      unknown_standard_error [of soc2_catalog "''SOC-2''" "[''CC6.1'']" "[policy_A]"] u k n
    by simp
qed

text \<open>
  C6. In every result, the implemented and the missing controls together are the
  required controls as a set, no control is both implemented and missing, and
  neither collection repeats a control, however often the required list does.
\<close>

theorem gap_completeness:
  assumes "check_compliance_gap stds s required policies = Inr r"
  shows "set (implemented_controls r) \<union> set (missing_controls r) = set required \<and>
         set (implemented_controls r) \<inter> set (missing_controls r) = {} \<and>
         distinct (implemented_controls r) \<and> distinct (missing_controls r)"
proof -
  let ?impl = "foldl (collect_implemented stds s) [] policies"
  have i: "implemented_controls r = set_intersection ?impl (set_of_list required)"
    using check_compliance_gap_Inr(5) [OF assms] .
  have m: "missing_controls r = set_difference (set_of_list required) ?impl"
    using check_compliance_gap_Inr(6) [OF assms] .
  have "distinct ?impl" by (simp add: distinct_collect_all)
  then have "distinct (implemented_controls r)"
    by (simp add: i set_intersection_def)
  moreover have "distinct (missing_controls r)"
    by (simp add: m set_difference_def distinct_set_of_list)
  moreover have "set (implemented_controls r) \<union> set (missing_controls r) = set required"
    by (auto simp: i m set_intersection_def set_difference_def set_set_of_list)
  moreover have "set (implemented_controls r) \<inter> set (missing_controls r) = {}"
    by (auto simp: i m set_intersection_def set_difference_def)
  ultimately show ?thesis by simp
qed

theorem gap_completeness_witness:
  "\<exists>r. check_compliance_gap soc2_catalog ''SOC-2'' [''CC6.1'', ''CC6.2'', ''CC6.1'']
          [policy_A, policy_B] = Inr r \<and>
       implemented_controls r = [''CC6.1''] \<and> missing_controls r = [''CC6.2''] \<and>
       set (implemented_controls r) \<union> set (missing_controls r) =
         set [''CC6.1'', ''CC6.2'', ''CC6.1''] \<and>
       set (implemented_controls r) \<inter> set (missing_controls r) = {} \<and>
       distinct (implemented_controls r) \<and> distinct (missing_controls r)"
proof -
  have "soc2_catalog ''SOC-2'' \<noteq> None" by (simp add: soc2_catalog_def)
  then obtain r where g: "check_compliance_gap soc2_catalog ''SOC-2''
      [''CC6.1'', ''CC6.2'', ''CC6.1''] [policy_A, policy_B] = Inr r"
    using check_compliance_gap_returns
      [of soc2_catalog "''SOC-2''" "[''CC6.1'', ''CC6.2'', ''CC6.1'']" "[policy_A, policy_B]"]
    by auto
  have i: "implemented_controls r = [''CC6.1'']"
    unfolding check_compliance_gap_Inr(5) [OF g]
    by (simp add: gap_defs mapper_defs example_defs)
  have m: "missing_controls r = [''CC6.2'']"
    unfolding check_compliance_gap_Inr(6) [OF g]
    by (simp add: gap_defs mapper_defs example_defs)
  show ?thesis using gap_completeness [OF g] g i m by blast
qed

text \<open>
  C7. For a standard of the catalog and a non-empty list of required controls the call
  returns a result whose coverage percentage lies between 0 and 100.
\<close>

theorem coverage_bound:
  assumes "stds s \<noteq> None" and "required \<noteq> []"
  shows "\<exists>r. check_compliance_gap stds s required policies = Inr r \<and>
             0 \<le> coverage_percentage r \<and> coverage_percentage r \<le> 100"
proof -
  obtain r where r: "check_compliance_gap stds s required policies = Inr r"
    using check_compliance_gap_returns [of stds s required policies] assms by blast
  define q :: rat where
    "q = float_round (of_nat (length (implemented_controls r)) / of_nat (length required))"
  have c: "coverage_percentage r = float_round (q * 100)"
    unfolding q_def using check_compliance_gap_Inr(7) [OF r] .
  have pos: "0 < length required"
    using assms(2) by simp
  have q: "0 \<le> q" "q \<le> 1"
    unfolding q_def
    using float_round_quotient_bounds [OF implemented_le_required [OF r] pos] by simp_all
  have "0 \<le> float_round (q * 100)" and "float_round (q * 100) \<le> 100"
    using float_percentage_bounds [OF q] by simp_all
  then show ?thesis using r c by simp
qed

theorem coverage_bound_witness:
  "soc2_catalog ''SOC-2'' \<noteq> None \<and> [''CC6.1'', ''CC6.2''] \<noteq> [] \<and>
   (\<exists>r. check_compliance_gap soc2_catalog ''SOC-2'' [''CC6.1'', ''CC6.2''] [policy_A, policy_B] = Inr r \<and>
        0 \<le> coverage_percentage r \<and> coverage_percentage r \<le> 100)"
proof -
  have k: "soc2_catalog ''SOC-2'' \<noteq> None" by (simp add: soc2_catalog_def)
  have n: "[''CC6.1'', ''CC6.2''] \<noteq> []" by simp
  show ?thesis
    using coverage_bound [of soc2_catalog "''SOC-2''" "[''CC6.1'', ''CC6.2'']" "[policy_A, policy_B]", OF k n] k
    by simp
qed



section \<open>What \<^verbatim>\<open>generate_compliance_report\<close> returns\<close>

lemma controls_at_Nil [simp]: "controls_at [] s = {}"
  by (simp add: controls_at_def)

lemma controls_at_Cons:
  "controls_at ((k, cs) # d) s = (if s = k then set cs else controls_at d s)"
  by (simp add: controls_at_def)

lemma controls_at_absent: "s \<notin> fst ` set d \<Longrightarrow> controls_at d s = {}"
proof -
  assume "s \<notin> fst ` set d"
  then have "map_of d s = None" by (simp add: map_of_eq_None_iff)
  then show ?thesis by (simp add: controls_at_def)
qed

lemma standards_covered_update_summary:
  "standards_covered (update_summary sm (k, cs)) = set_add (standards_covered sm) k"
  by (simp add: update_summary_def Let_def)

lemma total_policies_update_summary:
  "total_policies (update_summary sm item) = total_policies sm"
  by (cases item) (simp add: update_summary_def Let_def)

lemma keys_update_summary:
  "map fst (controls_covered (update_summary sm (k, cs))) =
     (if k \<in> set (map fst (controls_covered sm)) then map fst (controls_covered sm)
      else map fst (controls_covered sm) @ [k])"
  by (simp add: update_summary_def Let_def dict_contains_def dict_store_def keys_dict_modify)

lemma map_of_update_summary:
  "map_of (controls_covered (update_summary sm (k, cs))) s =
     (if s = k
      then Some (set_update (case map_of (controls_covered sm) k of None \<Rightarrow> [] | Some v \<Rightarrow> v) cs)
      else map_of (controls_covered sm) s)"
  by (auto simp: update_summary_def Let_def dict_contains_iff dict_store_def
      map_of_dict_modify map_add_def split: option.splits)

lemma controls_at_update_summary:
  "controls_at (controls_covered (update_summary sm (k, cs))) s =
     controls_at (controls_covered sm) s \<union> (if s = k then set cs else {})"
  by (auto simp: controls_at_def map_of_update_summary set_set_update split: option.splits)

lemma values_distinct_update_summary:
  "values_distinct (controls_covered sm) \<Longrightarrow>
     values_distinct (controls_covered (update_summary sm item))"
proof (cases item)
  case (Pair k cs)
  assume v: "values_distinct (controls_covered sm)"
  have "distinct (case map_of (controls_covered sm) k of None \<Rightarrow> [] | Some v \<Rightarrow> v)"
    using v by (simp add: values_distinct_def)
  then have "distinct (set_update (case map_of (controls_covered sm) k of None \<Rightarrow> [] | Some v \<Rightarrow> v) cs)"
    by (rule distinct_set_update)
  then show ?thesis
    using v unfolding Pair values_distinct_def by (simp add: map_of_update_summary)
qed

lemma set_standards_covered_items:
  "set (standards_covered (foldl update_summary sm mapping)) =
     set (standards_covered sm) \<union> fst ` set mapping"
proof (induction mapping arbitrary: sm)
  case Nil
  show ?case by simp
next
  case (Cons item mapping)
  show ?case
    by (cases item) (auto simp: Cons.IH standards_covered_update_summary set_set_add)
qed

lemma distinct_standards_covered_items:
  "distinct (standards_covered sm) \<Longrightarrow>
     distinct (standards_covered (foldl update_summary sm mapping))"
proof (induction mapping arbitrary: sm)
  case Nil
  then show ?case by simp
next
  case (Cons item mapping)
  then show ?case
    by (cases item) (simp add: standards_covered_update_summary distinct_set_add)
qed

lemma keys_controls_covered_items:
  "fst ` set (controls_covered (foldl update_summary sm mapping)) =
     fst ` set (controls_covered sm) \<union> fst ` set mapping"
proof (induction mapping arbitrary: sm)
  case Nil
  show ?case by simp
next
  case (Cons item mapping)
  obtain k cs where item: "item = (k, cs)" by (cases item)
  have "set (map fst (controls_covered (update_summary sm (k, cs)))) =
          insert k (set (map fst (controls_covered sm)))"
    unfolding keys_update_summary by auto
  then have "fst ` set (controls_covered (update_summary sm (k, cs))) =
          insert k (fst ` set (controls_covered sm))"
    by simp
  then show ?case by (simp add: Cons.IH item)
qed

lemma controls_at_items:
  "distinct (map fst mapping) \<Longrightarrow>
     controls_at (controls_covered (foldl update_summary sm mapping)) s =
       controls_at (controls_covered sm) s \<union> controls_at mapping s"
proof (induction mapping arbitrary: sm)
  case Nil
  show ?case by simp
next
  case (Cons item mapping)
  obtain k cs where item: "item = (k, cs)" by (cases item)
  have "k \<notin> fst ` set mapping" and "distinct (map fst mapping)"
    using Cons.prems by (simp_all add: item)
  then show ?case
    by (auto simp: Cons.IH item controls_at_update_summary controls_at_Cons controls_at_absent)
qed

lemma values_distinct_items:
  "values_distinct (controls_covered sm) \<Longrightarrow>
     values_distinct (controls_covered (foldl update_summary sm mapping))"
  by (induction mapping arbitrary: sm) (simp_all add: values_distinct_update_summary)

lemma total_policies_items:
  "total_policies (foldl update_summary sm mapping) = total_policies sm"
  by (induction mapping arbitrary: sm) (simp_all add: total_policies_update_summary)

lemma summary_report_policy:
  "summary (report_policy stds report policy) =
     foldl update_summary (summary report) (map_policy_to_standards stds policy)"
  by (simp add: report_policy_def Let_def)

lemma set_standards_covered_policies:
  "set (standards_covered (summary (foldl (report_policy stds) report policies))) =
     set (standards_covered (summary report)) \<union>
     (\<Union>p \<in> set policies. fst ` set (map_policy_to_standards stds p))"
  by (induction policies arbitrary: report)
    (auto simp: summary_report_policy set_standards_covered_items)

lemma distinct_standards_covered_policies:
  "distinct (standards_covered (summary report)) \<Longrightarrow>
     distinct (standards_covered (summary (foldl (report_policy stds) report policies)))"
  by (induction policies arbitrary: report)
    (simp_all add: summary_report_policy distinct_standards_covered_items)

lemma keys_controls_covered_policies:
  "fst ` set (controls_covered (summary (foldl (report_policy stds) report policies))) =
     fst ` set (controls_covered (summary report)) \<union>
     (\<Union>p \<in> set policies. fst ` set (map_policy_to_standards stds p))"
  by (induction policies arbitrary: report)
    (auto simp: summary_report_policy keys_controls_covered_items)

lemma controls_at_policies:
  "controls_at (controls_covered (summary (foldl (report_policy stds) report policies))) s =
     controls_at (controls_covered (summary report)) s \<union>
     (\<Union>p \<in> set policies. controls_at (map_policy_to_standards stds p) s)"
  by (induction policies arbitrary: report)
    (auto simp: summary_report_policy controls_at_items distinct_keys_map_policy)

lemma values_distinct_policies:
  "values_distinct (controls_covered (summary report)) \<Longrightarrow>
     values_distinct (controls_covered (summary (foldl (report_policy stds) report policies)))"
  by (induction policies arbitrary: report)
    (simp_all add: summary_report_policy values_distinct_items)

lemma total_policies_policies:
  "total_policies (summary (foldl (report_policy stds) report policies)) =
     total_policies (summary report)"
  by (induction policies arbitrary: report)
    (simp_all add: summary_report_policy total_policies_items)

lemmas report_defs =
  generate_compliance_report_def report_policy_def update_summary_def policy_name_of_def
  set_update_def set_add_def

text \<open>
  C8. After the report over the two policies P1 and P2, the controls covered for a
  standard are, as a set, the union of the controls the mappings of P1 and of P2
  hold for it, an absent key holding none. The standard is a key of the summary
  exactly when it is a key of one of the two mappings, and the summary lists no
  control twice.
\<close>

theorem aggregation_union:
  "controls_at (controls_covered (summary (generate_compliance_report stds [P1, P2]))) s =
     controls_at (map_policy_to_standards stds P1) s \<union>
     controls_at (map_policy_to_standards stds P2) s \<and>
   (dict_contains s (controls_covered (summary (generate_compliance_report stds [P1, P2])))
      \<longleftrightarrow> dict_contains s (map_policy_to_standards stds P1) \<or>
          dict_contains s (map_policy_to_standards stds P2)) \<and>
   distinct (case map_of (controls_covered (summary (generate_compliance_report stds [P1, P2]))) s
             of None \<Rightarrow> [] | Some cs \<Rightarrow> cs)"
proof -
  let ?cc = "controls_covered (summary (generate_compliance_report stds [P1, P2]))"
  have u: "controls_at ?cc s =
     controls_at (map_policy_to_standards stds P1) s \<union>
     controls_at (map_policy_to_standards stds P2) s"
    unfolding generate_compliance_report_def controls_at_policies by simp
  have "fst ` set ?cc =
     fst ` set (map_policy_to_standards stds P1) \<union> fst ` set (map_policy_to_standards stds P2)"
    unfolding generate_compliance_report_def keys_controls_covered_policies by simp
  then have k: "dict_contains s ?cc \<longleftrightarrow>
      dict_contains s (map_policy_to_standards stds P1) \<or>
      dict_contains s (map_policy_to_standards stds P2)"
    by (simp add: dict_contains_def)
  have "values_distinct ?cc"
    unfolding generate_compliance_report_def
    by (rule values_distinct_policies) (simp add: values_distinct_def)
  then have d: "distinct (case map_of ?cc s of None \<Rightarrow> [] | Some cs \<Rightarrow> cs)"
    by (simp add: values_distinct_def)
  show ?thesis using u k d by simp
qed

theorem aggregation_union_witness:
  "controls_covered (summary (generate_compliance_report soc2_catalog [policy_D, policy_B])) =
     [(''SOC-2'', [''CC6.1''])] \<and>
   controls_at (map_policy_to_standards soc2_catalog policy_D) ''SOC-2'' = {''CC6.1''} \<and>
   controls_at (map_policy_to_standards soc2_catalog policy_B) ''SOC-2'' = {} \<and>
   controls_at (controls_covered (summary (generate_compliance_report soc2_catalog [policy_D, policy_B])))
     ''SOC-2'' = {''CC6.1''}"
proof -
  have c: "controls_covered (summary (generate_compliance_report soc2_catalog [policy_D, policy_B])) =
     [(''SOC-2'', [''CC6.1''])]"
    by (simp add: report_defs mapper_defs example_defs)
  have d: "controls_at (map_policy_to_standards soc2_catalog policy_D) ''SOC-2'' = {''CC6.1''}"
    by (simp add: controls_at_def mapper_defs example_defs)
  have b: "controls_at (map_policy_to_standards soc2_catalog policy_B) ''SOC-2'' = {}"
    by (simp add: controls_at_def mapper_defs example_defs)
  show ?thesis
    using aggregation_union [of soc2_catalog policy_D policy_B "''SOC-2''"] c d b by simp
qed

text \<open>
  C9. The standards covered by a report are, as a set, the union over the policies
  of the keys of each policy's mapping, listed without repetition. Every reference
  of a policy to a standard of the catalog puts that standard among them, whether
  or not the reference has a control id.
\<close>

theorem standards_covered_union:
  "set (standards_covered (summary (generate_compliance_report stds policies))) =
     (\<Union>p \<in> set policies. set (map fst (map_policy_to_standards stds p))) \<and>
   distinct (standards_covered (summary (generate_compliance_report stds policies))) \<and>
   (\<forall>p \<in> set policies. \<forall>ref \<in> set (compliance_refs p).
      stds (standard_id_of ref) \<noteq> None \<longrightarrow>
        standard_id_of ref \<in>
          set (standards_covered (summary (generate_compliance_report stds policies))))"
proof -
  let ?sc = "standards_covered (summary (generate_compliance_report stds policies))"
  have u: "set ?sc = (\<Union>p \<in> set policies. fst ` set (map_policy_to_standards stds p))"
    unfolding generate_compliance_report_def set_standards_covered_policies by simp
  have d: "distinct ?sc"
    unfolding generate_compliance_report_def
    by (rule distinct_standards_covered_policies) simp
  have "standard_id_of ref \<in> set ?sc"
    if "p \<in> set policies" "ref \<in> set (compliance_refs p)" "stds (standard_id_of ref) \<noteq> None"
    for p ref
  proof -
    have "standard_id_of ref \<in> fst ` set (map_policy_to_standards stds p)"
      unfolding keys_map_policy using that(2,3) by simp
    then show ?thesis unfolding u using that(1) by blast
  qed
  then show ?thesis using u d by simp
qed

theorem standards_covered_union_witness:
  "policy_B \<in> set [policy_A, policy_B] \<and> ''SOC-2'' \<in> set (compliance_refs policy_B) \<and>
   soc2_catalog (standard_id_of ''SOC-2'') \<noteq> None \<and> control_id_of ''SOC-2'' = None \<and>
   standard_id_of ''SOC-2'' \<in>
     set (standards_covered (summary (generate_compliance_report soc2_catalog [policy_A, policy_B]))) \<and>
   set (standards_covered (summary (generate_compliance_report soc2_catalog [policy_A, policy_B]))) =
     set (map fst (map_policy_to_standards soc2_catalog policy_A)) \<union>
     set (map fst (map_policy_to_standards soc2_catalog policy_B))"
proof -
  have p: "policy_B \<in> set [policy_A, policy_B]" by simp
  have r: "''SOC-2'' \<in> set (compliance_refs policy_B)"
    by (simp add: compliance_refs_def policy_B_def)
  have k: "soc2_catalog (standard_id_of ''SOC-2'') \<noteq> None"
    by (simp add: soc2_catalog_def standard_id_of_def)
  have n: "control_id_of ''SOC-2'' = None"
    by (simp add: control_id_of_def)
  show ?thesis
    using standards_covered_union [of soc2_catalog "[policy_A, policy_B]"] p r k n
    by auto
qed

section \<open>The coverage percentage and repeated required controls\<close>

lemma distinct_singleton:
  assumes "distinct xs" and "set xs = {c}"
  shows "xs = [c]"
proof (cases xs)
  case Nil
  with assms(2) show ?thesis by simp
next
  case (Cons a as)
  with assms have a: "a = c" and n: "c \<notin> set as" and sub: "set as \<subseteq> {c}" by auto
  have "as = []" using n sub by (cases as) auto
  then show ?thesis using Cons a by simp
qed

lemma set_implemented_controls:
  assumes "check_compliance_gap stds s required policies = Inr r"
  shows "set (implemented_controls r) =
           set required \<inter> (\<Union>p \<in> set policies. controls_at (map_policy_to_standards stds p) s)"
    and "distinct (implemented_controls r)"
proof -
  let ?impl = "foldl (collect_implemented stds s) [] policies"
  have i: "implemented_controls r = set_intersection ?impl (set_of_list required)"
    using check_compliance_gap_Inr(5) [OF assms] .
  show "set (implemented_controls r) =
           set required \<inter> (\<Union>p \<in> set policies. controls_at (map_policy_to_standards stds p) s)"
    by (auto simp: i set_intersection_def set_set_of_list set_collect_all)
  have "distinct ?impl" by (simp add: distinct_collect_all)
  then show "distinct (implemented_controls r)"
    by (simp add: i set_intersection_def)
qed

text \<open>
  C10. The coverage percentage is the float computed from the number of distinct
  required controls that some policy implements, divided by the length of the
  required list, repetitions counted. So a required list with a repetition (of a
  length a double counts exactly) has a coverage below 100, even when every
  required control is implemented: requiring a control twice that some policy
  implements gives that control as the only implemented one, no missing control,
  and a coverage of 50.
\<close>

theorem coverage_counts_duplicates:
  assumes "check_compliance_gap stds s required policies = Inr r"
  shows "coverage_percentage r =
           float_round
             (float_round
                (of_nat (card (set required \<inter>
                    (\<Union>p \<in> set policies. controls_at (map_policy_to_standards stds p) s)))
                 / of_nat (length required))
              * 100) \<and>
         (\<not> distinct required \<and> length required \<le> 2 ^ 53 \<longrightarrow> coverage_percentage r < 100) \<and>
         (required = [c, c] \<and>
          c \<in> (\<Union>p \<in> set policies. controls_at (map_policy_to_standards stds p) s) \<longrightarrow>
            implemented_controls r = [c] \<and> missing_controls r = [] \<and>
            coverage_percentage r = 50)"
proof -
  let ?U = "\<Union>p \<in> set policies. controls_at (map_policy_to_standards stds p) s"
  let ?n = "length (implemented_controls r)"
  have c: "coverage_percentage r =
             float_round (float_round (of_nat ?n / of_nat (length required)) * 100)"
    using check_compliance_gap_Inr(7) [OF assms] .
  have si: "set (implemented_controls r) = set required \<inter> ?U"
    and di: "distinct (implemented_controls r)"
    using set_implemented_controls [OF assms] by simp_all
  have n: "?n = card (set required \<inter> ?U)"
    using distinct_card [OF di] by (simp add: si)
  have lt100: "coverage_percentage r < 100"
    if dup: "\<not> distinct required" and len: "length required \<le> 2 ^ 53"
  proof -
    have "card (set required) \<noteq> length required"
      using dup card_distinct [of required] by blast
    then have "card (set required) < length required"
      using card_length [of required] by simp
    moreover have "?n \<le> card (set required)"
      unfolding n by (simp add: card_mono)
    ultimately have lt: "?n < length required" by simp
    have q1: "float_round (of_nat ?n / of_nat (length required)) \<le> 1 - 1 / 2 ^ 53"
      by (rule float_round_quotient_below_1 [OF lt len])
    have "(0::rat) \<le> of_nat ?n / of_nat (length required)" by simp
    then have q0: "0 \<le> float_round (of_nat ?n / of_nat (length required))"
      by (rule float_round_nonneg)
    show ?thesis unfolding c by (rule float_percentage_below_100 [OF q0 q1])
  qed
  have twice: "implemented_controls r = [c] \<and> missing_controls r = [] \<and>
      coverage_percentage r = 50"
    if req: "required = [c, c]" and impl: "c \<in> ?U"
  proof -
    have "set (implemented_controls r) = {c}"
      using impl by (auto simp: si req)
    then have i: "implemented_controls r = [c]"
      using di by (rule distinct_singleton [rotated])
    have "set (missing_controls r) = set required - set (foldl (collect_implemented stds s) [] policies)"
      unfolding check_compliance_gap_Inr(6) [OF assms]
      by (auto simp: set_difference_def set_set_of_list)
    then have "set (missing_controls r) = {}"
      using impl by (auto simp: req set_collect_all)
    then have m: "missing_controls r = []" by simp
    have "coverage_percentage r = float_round (float_round (1 / 2) * 100)"
      unfolding c i req by simp
    then have "coverage_percentage r = 50"
      by (simp add: float_round_half float_round_50)
    then show ?thesis using i m by simp
  qed
  show ?thesis using c n lt100 twice by simp
qed

theorem coverage_counts_duplicates_witness:
  "\<exists>r. check_compliance_gap soc2_catalog ''SOC-2'' [''CC6.1'', ''CC6.1''] [policy_A] = Inr r \<and>
       \<not> distinct (required_controls r) \<and>
       implemented_controls r = [''CC6.1''] \<and> missing_controls r = [] \<and>
       coverage_percentage r = 50 \<and> coverage_percentage r < 100"
proof -
  have "soc2_catalog ''SOC-2'' \<noteq> None" by (simp add: soc2_catalog_def)
  then obtain r where g: "check_compliance_gap soc2_catalog ''SOC-2''
      [''CC6.1'', ''CC6.1''] [policy_A] = Inr r"
    using check_compliance_gap_returns
      [of soc2_catalog "''SOC-2''" "[''CC6.1'', ''CC6.1'']" "[policy_A]"]
    by auto
  have d: "\<not> distinct [''CC6.1'', ''CC6.1''] \<and> length [''CC6.1'', ''CC6.1''] \<le> 2 ^ 53"
    by simp
  have u: "[''CC6.1'', ''CC6.1''] = [''CC6.1'', ''CC6.1''] \<and>
      ''CC6.1'' \<in> (\<Union>p \<in> set [policy_A].
                    controls_at (map_policy_to_standards soc2_catalog p) ''SOC-2'')"
    by (simp add: controls_at_def mapper_defs example_defs)
  have rq: "required_controls r = [''CC6.1'', ''CC6.1'']"
    using check_compliance_gap_Inr(4) [OF g] .
  show ?thesis
    using coverage_counts_duplicates [OF g, of "''CC6.1''"] g d u rq by auto
qed

end
